theory Spec2Isabelle
  imports Main "HOL-Library.Sublist"
begin

section \<open>Zodiac classifier\<close>

text \<open>
  The table of \<open>calculateZodiacSign\<close> (server/index.js): each row has a label, an
  inclusive start \<open>[month, day]\<close> and an inclusive end \<open>[month, day]\<close>. The field
  \<open>end\<close> of the source is called \<open>endd\<close> here, \<open>end\<close> being a keyword.
\<close>

record zodiac =
  sign :: string
  start :: "int \<times> int"
  endd :: "int \<times> int"

definition zodiacSigns :: "zodiac list" where
  "zodiacSigns =
    [\<lparr>sign = ''Capricorn'', start = (12, 22), endd = (1, 19)\<rparr>,
     \<lparr>sign = ''Aquarius'', start = (1, 20), endd = (2, 18)\<rparr>,
     \<lparr>sign = ''Pisces'', start = (2, 19), endd = (3, 20)\<rparr>,
     \<lparr>sign = ''Aries'', start = (3, 21), endd = (4, 19)\<rparr>,
     \<lparr>sign = ''Taurus'', start = (4, 20), endd = (5, 20)\<rparr>,
     \<lparr>sign = ''Gemini'', start = (5, 21), endd = (6, 20)\<rparr>,
     \<lparr>sign = ''Cancer'', start = (6, 21), endd = (7, 22)\<rparr>,
     \<lparr>sign = ''Leo'', start = (7, 23), endd = (8, 22)\<rparr>,
     \<lparr>sign = ''Virgo'', start = (8, 23), endd = (9, 22)\<rparr>,
     \<lparr>sign = ''Libra'', start = (9, 23), endd = (10, 22)\<rparr>,
     \<lparr>sign = ''Scorpio'', start = (10, 23), endd = (11, 21)\<rparr>,
     \<lparr>sign = ''Sagittarius'', start = (11, 22), endd = (12, 21)\<rparr>]"

text \<open>
  The test in the body of the loop: a row whose start month is greater than its end
  month spans the turn of the year and has no "month strictly between" clause.
\<close>

definition in_range :: "int \<Rightarrow> int \<Rightarrow> zodiac \<Rightarrow> bool" where
  "in_range month day z =
    (case start z of (startMonth, startDay) \<Rightarrow>
     case endd z of (endMonth, endDay) \<Rightarrow>
       if startMonth > endMonth
       then (month = startMonth \<and> day \<ge> startDay) \<or> (month = endMonth \<and> day \<le> endDay)
       else (month = startMonth \<and> day \<ge> startDay) \<or> (month = endMonth \<and> day \<le> endDay)
            \<or> (month > startMonth \<and> month < endMonth))"

text \<open>The \<open>for ... of\<close> loop: the first matching row returns, the end of the table
  falls through to \<open>'Unknown'\<close>.\<close>

fun first_match :: "int \<Rightarrow> int \<Rightarrow> zodiac list \<Rightarrow> string" where
  "first_match month day [] = ''Unknown''"
| "first_match month day (z # zs) =
     (if in_range month day z then sign z else first_match month day zs)"

definition zodiac_of :: "int \<Rightarrow> int \<Rightarrow> string" where
  "zodiac_of month day = first_match month day zodiacSigns"

text \<open>The calendar the classifier is meant for: twelve months, February with 29 days.\<close>

definition days_in :: "int \<Rightarrow> int" where
  "days_in month =
     (if month = 2 then 29 else if month \<in> {4, 6, 9, 11} then 30 else 31)"

definition valid_day :: "int \<Rightarrow> int \<Rightarrow> bool" where
  "valid_day month day \<longleftrightarrow> 1 \<le> month \<and> month \<le> 12 \<and> 1 \<le> day \<and> day \<le> days_in month"

definition calendar :: "(int \<times> int) list" where
  "calendar = concat (map (\<lambda>m. map (\<lambda>d. (m, d)) [1 .. days_in m]) [1 .. 12])"

section \<open>Strings of the JavaScript runtime\<close>

text \<open>
  A \<open>string\<close> stands for a JavaScript string whose code units are all below 256, one
  \<open>char\<close> for each code unit, so that \<open>length\<close> is the \<open>.length\<close> of the source.
  White space (what \<open>trim()\<close> strips and what \<open>\s\<close> matches) is, below 256, the
  characters 9 to 13, the space and the no-break space 160.
\<close>

definition is_space :: "char \<Rightarrow> bool" where
  "is_space c \<longleftrightarrow> (of_char c :: nat) \<in> {9, 10, 11, 12, 13, 32, 160}"

definition is_letter :: "char \<Rightarrow> bool" where
  "is_letter c \<longleftrightarrow> (let n = (of_char c :: nat) in (65 \<le> n \<and> n \<le> 90) \<or> (97 \<le> n \<and> n \<le> 122))"

definition is_digit :: "char \<Rightarrow> bool" where
  "is_digit c \<longleftrightarrow> (let n = (of_char c :: nat) in 48 \<le> n \<and> n \<le> 57)"

definition trim :: "string \<Rightarrow> string" where
  "trim s = rev (dropWhile is_space (rev (dropWhile is_space s)))"

text \<open>The test \<open>/^[a-zA-Z\s'-]+$/\<close> of \<open>validateInput\<close>: one character or more, each
  of them a letter, white space, an apostrophe or a hyphen.\<close>

definition name_pattern :: "string \<Rightarrow> bool" where
  "name_pattern s \<longleftrightarrow>
     s \<noteq> [] \<and> list_all (\<lambda>c. is_letter c \<or> is_space c \<or> c = CHR 0x27 \<or> c = CHR ''-'') s"

text \<open>
  \<open>validator.escape\<close> (the validator package is a dependency, not a file of the
  repository): it replaces \<open>&\<close>, \<open>"\<close>, \<open>'\<close>, \<open><\<close>, \<open>>\<close>, \<open>/\<close>, the backslash
  and the backquote by an HTML entity each. The replacements run one after the other,
  \<open>&\<close> first, and no later one touches an ampersand, so the result is a map over the
  characters.
\<close>

definition escape_char :: "char \<Rightarrow> string" where
  "escape_char c =
    (if c = CHR ''&'' then ''&amp;''
     else if c = CHR 0x22 then ''&quot;''
     else if c = CHR 0x27 then ''&#x27;''
     else if c = CHR ''<'' then ''&lt;''
     else if c = CHR ''>'' then ''&gt;''
     else if c = CHR ''/'' then ''&#x2F;''
     else if c = CHR 0x5C then ''&#x5C;''
     else if c = CHR 0x60 then ''&#96;''
     else [c])"

definition escape :: "string \<Rightarrow> string" where
  "escape s = concat (map escape_char s)"

text \<open>Decimal digits, for \<open>Date.now().toString()\<close> and \<open>toISOString()\<close>.\<close>

definition digit_char :: "int \<Rightarrow> char" where
  "digit_char i = ''0123456789'' ! nat (i mod 10)"

function show_digits :: "int \<Rightarrow> string" where
  "show_digits i = (if i < 10 then [digit_char i] else show_digits (i div 10) @ [digit_char i])"
  by pat_completeness auto
termination
  by (relation "measure nat") auto

declare show_digits.simps [simp del]

definition toString :: "int \<Rightarrow> string" where
  "toString i = (if i < 0 then CHR ''-'' # show_digits (- i) else show_digits i)"

definition pad :: "nat \<Rightarrow> int \<Rightarrow> string" where
  "pad w i = (let ds = show_digits i in replicate (w - length ds) CHR ''0'' @ ds)"

definition digits_value :: "string \<Rightarrow> int" where
  "digits_value s = foldl (\<lambda>a c. 10 * a + (int (of_char c) - 48)) 0 s"

section \<open>Time values of the JavaScript runtime\<close>

text \<open>
  A \<open>Date\<close> holds a time value: the milliseconds since 1970-01-01T00:00:00Z, or
  \<open>NaN\<close> for an invalid date, \<open>None\<close> here. Day numbers and calendar fields follow
  the proleptic Gregorian calendar, as \<open>MakeDay\<close>, \<open>YearFromTime\<close>,
  \<open>MonthFromTime\<close> and \<open>DateFromTime\<close> of ECMAScript do. The limit of
  8.64e15 milliseconds on a time value is not modelled.
\<close>

definition msPerDay :: int where
  "msPerDay = 86400000"

definition leap_year :: "int \<Rightarrow> bool" where
  "leap_year y \<longleftrightarrow> y mod 4 = 0 \<and> (y mod 100 \<noteq> 0 \<or> y mod 400 = 0)"

definition days_in_month :: "int \<Rightarrow> int \<Rightarrow> int" where
  "days_in_month y m =
     (if m = 2 then (if leap_year y then 29 else 28)
      else if m \<in> {4, 6, 9, 11} then 30 else 31)"

text \<open>The day number of year \<open>y\<close>, month \<open>m\<close> (1 to 12) and day \<open>d\<close>; a day beyond
  the month's length runs over into the next month, as \<open>MakeDay\<close> has it.\<close>

definition days_from_civil :: "int \<Rightarrow> int \<Rightarrow> int \<Rightarrow> int" where
  "days_from_civil y m d =
    (let y' = (if m \<le> 2 then y - 1 else y);
         era = y' div 400;
         yoe = y' mod 400;
         mp = (m + 9) mod 12;
         doy = (153 * mp + 2) div 5 + d - 1;
         doe = yoe * 365 + yoe div 4 - yoe div 100 + doy
     in era * 146097 + doe - 719468)"

text \<open>Year, month (1 to 12) and day of the month of a day number.\<close>

definition civil_from_days :: "int \<Rightarrow> int \<times> int \<times> int" where
  "civil_from_days z =
    (let z' = z + 719468;
         era = z' div 146097;
         doe = z' mod 146097;
         yoe = (doe - doe div 1460 + doe div 36524 - doe div 146096) div 365;
         doy = doe - (365 * yoe + yoe div 4 - yoe div 100);
         mp = (5 * doy + 2) div 153;
         d = doy - (153 * mp + 2) div 5 + 1;
         m = (if mp < 10 then mp + 3 else mp - 9)
     in (if m \<le> 2 then yoe + era * 400 + 1 else yoe + era * 400, m, d))"

section \<open>The environment of a request\<close>

text \<open>
  What a request reads from outside the source file:
  \<^item> \<open>tzOffset\<close>: the minutes that the server's local time is ahead of UTC (negative
    west of Greenwich), taken as fixed over the instants involved;
  \<^item> \<open>isDate\<close>: \<open>validator.isDate\<close> with its default options;
  \<^item> \<open>otherParse\<close>: what \<open>new Date(s)\<close> holds for a string that is not a full
    date \<open>YYYY-MM-DD\<close>, which depends on the engine;
  \<^item> \<open>clockToday\<close>, \<open>clockId\<close>, \<open>clockStamp\<close>: the clock at \<open>new Date()\<close> in
    \<open>validateInput\<close>, at \<open>Date.now()\<close> and at \<open>new Date()\<close> of the time stamp;
  \<^item> \<open>readFails\<close>, \<open>writeFails\<close>: whether \<open>fs.readFile\<close> or \<open>JSON.parse\<close> in
    \<open>readData\<close>, and \<open>fs.writeFile\<close> in \<open>writeData\<close>, throw during this request;
  \<^item> \<open>writeTruncates\<close>: whether a write that fails does so after \<open>fs.writeFile\<close>
    has opened the file, which empties it, or before.
\<close>

record env =
  tzOffset :: int
  isDate :: "string \<Rightarrow> bool"
  otherParse :: "string \<Rightarrow> int option"
  clockToday :: int
  clockId :: int
  clockStamp :: int
  readFails :: bool
  writeFails :: bool
  writeTruncates :: bool

text \<open>
  \<open>new Date(s)\<close> on a string: a date-only form \<open>YYYY-MM-DD\<close> that names a day of the
  calendar is midnight of that day in UTC (ECMAScript, Date Time String Format).
\<close>

definition parse_iso_date :: "string \<Rightarrow> (int \<times> int \<times> int) option" where
  "parse_iso_date s =
    (if length s = 10 \<and> s ! 4 = CHR ''-'' \<and> s ! 7 = CHR ''-''
        \<and> list_all is_digit (take 4 s) \<and> list_all is_digit (take 2 (drop 5 s))
        \<and> list_all is_digit (drop 8 s)
     then (let y = digits_value (take 4 s);
               m = digits_value (take 2 (drop 5 s));
               d = digits_value (drop 8 s)
           in if 1 \<le> m \<and> m \<le> 12 \<and> 1 \<le> d \<and> d \<le> days_in_month y m
              then Some (y, m, d) else None)
     else None)"

definition Date_parse :: "env \<Rightarrow> string \<Rightarrow> int option" where
  "Date_parse e s =
    (case parse_iso_date s of
       Some (y, m, d) \<Rightarrow> Some (days_from_civil y m d * msPerDay)
     | None \<Rightarrow> otherParse e s)"

text \<open>The getters read the local time, \<open>t + tzOffset\<close> minutes; \<open>getMonth\<close> counts
  from 0.\<close>

definition local_fields :: "env \<Rightarrow> int \<Rightarrow> int \<times> int \<times> int" where
  "local_fields e t = civil_from_days ((t + tzOffset e * 60000) div msPerDay)"

definition getFullYear :: "env \<Rightarrow> int \<Rightarrow> int" where
  "getFullYear e t = fst (local_fields e t)"

definition getMonth :: "env \<Rightarrow> int \<Rightarrow> int" where
  "getMonth e t = fst (snd (local_fields e t)) - 1"

definition getDate :: "env \<Rightarrow> int \<Rightarrow> int" where
  "getDate e t = snd (snd (local_fields e t))"

text \<open>\<open>new Date(year, monthIndex, day)\<close>: midnight of that day in local time; a year
  from 0 to 99 counts from 1900, a month index beyond 0 to 11 carries into the year.\<close>

definition Date_of_fields :: "env \<Rightarrow> int \<Rightarrow> int \<Rightarrow> int \<Rightarrow> int" where
  "Date_of_fields e year monthIndex day =
    (let yr = (if 0 \<le> year \<and> year \<le> 99 then 1900 + year else year)
     in days_from_civil (yr + monthIndex div 12) (monthIndex mod 12 + 1) day * msPerDay
        - tzOffset e * 60000)"

text \<open>\<open>toISOString()\<close>: the fields in UTC; a year outside 0 to 9999 has a sign and
  six digits.\<close>

definition toISOString :: "int \<Rightarrow> string" where
  "toISOString t =
    (case civil_from_days (t div msPerDay) of (y, m, d) \<Rightarrow>
     let ms = t mod msPerDay;
         year = (if 0 \<le> y \<and> y \<le> 9999 then pad 4 y
                 else (if y < 0 then CHR ''-'' else CHR ''+'') # pad 6 (abs y))
     in year @ ''-'' @ pad 2 m @ ''-'' @ pad 2 d @ ''T'' @ pad 2 (ms div 3600000) @ '':''
        @ pad 2 (ms div 60000 mod 60) @ '':'' @ pad 2 (ms div 1000 mod 60) @ ''.''
        @ pad 3 (ms mod 1000) @ ''Z'')"

text \<open>
  \<open>calculateZodiacSign\<close>: month and day are those of the local time of
  \<open>new Date(dateString)\<close>. On an invalid date both are \<open>NaN\<close>, every comparison of the
  loop is false and the function returns \<open>'Unknown'\<close>.
\<close>

definition calculateZodiacSign :: "env \<Rightarrow> string \<Rightarrow> string" where
  "calculateZodiacSign e dateString =
    (case Date_parse e dateString of
       None \<Rightarrow> ''Unknown''
     | Some date \<Rightarrow> zodiac_of (getMonth e date + 1) (getDate e date))"

section \<open>Input validation\<close>

text \<open>
  A field of the request body, as far as \<open>validateInput\<close> tells values apart: a string,
  a value that is not a string and is falsy (\<open>undefined\<close> for a missing field, \<open>null\<close>,
  \<open>false\<close>, \<open>0\<close>), or a value that is not a string and is truthy (a number, \<open>true\<close>,
  an array, an object). The empty string is falsy.
\<close>

datatype jsval = Str string | Falsy | Truthy

datatype exn = TypeError | SaveError

record validation =
  isValid :: bool
  errors :: "string list"
  sanitizedName :: string
  sanitizedDate :: string

text \<open>
  \<open>validateInput\<close> fills \<open>errors\<close> by two chains of \<open>if\<close> and \<open>else if\<close>, the
  first on the name, the second on the date of birth: \<open>name_errors\<close> and
  \<open>date_errors\<close> are what each chain pushes.
\<close>

definition name_errors :: "jsval \<Rightarrow> string list" where
  "name_errors name =
    (case name of
       Str s \<Rightarrow>
         if s = [] then [''Name is required'']
         else if length (trim s) < 2 then [''Name must be at least 2 characters long'']
         else if length (trim s) > 50 then [''Name must be less than 50 characters'']
         else if \<not> name_pattern (trim s)
           then [''Name can only contain letters, spaces, hyphens, and apostrophes'']
         else []
     | _ \<Rightarrow> [''Name is required''])"

text \<open>The comparisons \<open>birthDate > today\<close> and \<open>birthDate < hundredYearsAgo\<close> compare
  time values, and are false when \<open>birthDate\<close> is invalid.\<close>

definition hundredYearsAgo :: "env \<Rightarrow> int" where
  "hundredYearsAgo e =
    (let today = clockToday e
     in Date_of_fields e (getFullYear e today - 120) (getMonth e today) (getDate e today))"

definition date_errors :: "env \<Rightarrow> jsval \<Rightarrow> string list" where
  "date_errors e dateOfBirth =
    (case dateOfBirth of
       Str s \<Rightarrow>
         if s = [] then [''Date of birth is required'']
         else if \<not> isDate e s then [''Invalid date format'']
         else (case Date_parse e s of
                 None \<Rightarrow> []
               | Some birthDate \<Rightarrow>
                   if birthDate > clockToday e then [''Date of birth cannot be in the future'']
                   else if birthDate < hundredYearsAgo e
                     then [''Date of birth cannot be more than 120 years ago'']
                   else [])
     | _ \<Rightarrow> [''Date of birth is required''])"

text \<open>
  The object returned at the end calls \<open>name.trim()\<close> when \<open>name\<close> is truthy and
  \<open>dateOfBirth.trim()\<close> when \<open>dateOfBirth\<close> is truthy: on a truthy value that is not a
  string this throws a \<open>TypeError\<close>.
\<close>

definition validateInput :: "env \<Rightarrow> jsval \<Rightarrow> jsval \<Rightarrow> exn + validation" where
  "validateInput e name dateOfBirth =
    (let errors = name_errors name @ date_errors e dateOfBirth
     in if name = Truthy \<or> dateOfBirth = Truthy then Inl TypeError
        else Inr \<lparr>isValid = (length errors = 0),
                  errors = errors,
                  sanitizedName = (case name of Str s \<Rightarrow> escape (trim s) | _ \<Rightarrow> []),
                  sanitizedDate = (case dateOfBirth of Str s \<Rightarrow> trim s | _ \<Rightarrow> [])\<rparr>)"

section \<open>The entry store and the request handlers\<close>

text \<open>
  An entry as \<open>POST /api/calculate\<close> builds it; the field \<open>id\<close> of the source is
  \<open>entry_id\<close> here. The store is the array held in \<open>data.json\<close>, oldest entry first;
  \<open>JSON.stringify\<close> followed by \<open>JSON.parse\<close> gives back an array of such entries
  as it was, so the document is the list itself.
\<close>

record entry =
  entry_id :: string
  name :: string
  dateOfBirth :: string
  zodiacSign :: string
  timestamp :: string

type_synonym store = "entry list"

text \<open>\<open>readData\<close> catches every failure of the read and returns the empty array;
  \<open>writeData\<close> throws \<open>Error('Failed to save data')\<close> when the write fails.\<close>

definition readData :: "env \<Rightarrow> store \<Rightarrow> entry list" where
  "readData e st = (if readFails e then [] else st)"

definition writeData :: "env \<Rightarrow> entry list \<Rightarrow> exn + store" where
  "writeData e data = (if writeFails e then Inl SaveError else Inr data)"

datatype body =
    Entries "entry list"
  | Result string string string
  | Failed string "string list"
  | Error string

record response =
  status :: nat
  body :: body

text \<open>\<open>data.slice(-10).reverse()\<close>: the last ten elements, or all of them when there
  are fewer, the last one first.\<close>

definition slice_last :: "nat \<Rightarrow> 'a list \<Rightarrow> 'a list" where
  "slice_last n xs = (if length xs > n then drop (length xs - n) xs else xs)"

definition get_entries :: "env \<Rightarrow> store \<Rightarrow> response" where
  "get_entries e st =
    (let data = readData e st;
         recentEntries = rev (slice_last 10 data)
     in \<lparr>status = 200, body = Entries recentEntries\<rparr>)"

text \<open>The entry object of the handler, from the validation result.\<close>

definition new_entry :: "env \<Rightarrow> validation \<Rightarrow> entry" where
  "new_entry e v =
    \<lparr>entry_id = toString (clockId e),
     name = sanitizedName v,
     dateOfBirth = sanitizedDate v,
     zodiacSign = calculateZodiacSign e (sanitizedDate v),
     timestamp = toISOString (clockStamp e)\<rparr>"

text \<open>\<open>data.push(entry)\<close>, then \<open>data.splice(0, data.length - 100)\<close> when the array
  has more than 100 elements.\<close>

definition push_capped :: "entry list \<Rightarrow> entry \<Rightarrow> entry list" where
  "push_capped data entry =
    (let data' = data @ [entry]
     in if length data' > 100 then drop (length data' - 100) data' else data')"

text \<open>
  \<open>POST /api/calculate\<close> on a body with the fields \<open>name\<close> and \<open>dateOfBirth\<close>
  (\<open>name'\<close> and \<open>dateOfBirth'\<close> here, apart from the fields of an entry): the
  response and the document afterwards. The body of the request is an object, so that
  reading the two fields does not throw. Whatever is thrown inside the handler is caught
  and answered by 500. A write that fails before the file is opened leaves the document
  as it was. One that fails later leaves the file empty or cut short: such a file does
  not parse, \<open>readData\<close> reads it as the empty array, and it is the empty list here.
\<close>

definition post_calculate :: "env \<Rightarrow> jsval \<Rightarrow> jsval \<Rightarrow> store \<Rightarrow> response \<times> store" where
  "post_calculate e name' dateOfBirth' st =
    (case validateInput e name' dateOfBirth' of
       Inl _ \<Rightarrow> (\<lparr>status = 500, body = Error ''Internal server error''\<rparr>, st)
     | Inr validation \<Rightarrow>
         if \<not> isValid validation
         then (\<lparr>status = 400, body = Failed ''Validation failed'' (errors validation)\<rparr>, st)
         else
           (let entry = new_entry e validation;
                data = push_capped (readData e st) entry
            in case writeData e data of
                 Inl _ \<Rightarrow> (\<lparr>status = 500, body = Error ''Internal server error''\<rparr>,
                           if writeTruncates e then [] else st)
               | Inr st' \<Rightarrow>
                   (\<lparr>status = 200,
                     body = Result (sanitizedName validation) (sanitizedDate validation)
                                   (zodiacSign entry)\<rparr>, st')))"

text \<open>A sequence of submissions, one after the other, each with its own environment.\<close>

fun post_all :: "(env \<times> jsval \<times> jsval) list \<Rightarrow> store \<Rightarrow> store" where
  "post_all [] st = st"
| "post_all ((e, name', dateOfBirth') # rs) st =
     post_all rs (snd (post_calculate e name' dateOfBirth' st))"

section \<open>Notions of the specification\<close>

text \<open>The day that follows a day of the 366-day calendar, 12/31 being followed by 1/1.\<close>

definition next_day :: "int \<times> int \<Rightarrow> int \<times> int" where
  "next_day md =
    (case md of (m, d) \<Rightarrow>
       if d < days_in m then (m, d + 1) else (if m = 12 then 1 else m + 1, 1))"

definition sign_labels :: "string list" where
  "sign_labels =
    [''Capricorn'', ''Aquarius'', ''Pisces'', ''Aries'', ''Taurus'', ''Gemini'',
     ''Cancer'', ''Leo'', ''Virgo'', ''Libra'', ''Scorpio'', ''Sagittarius'']"

text \<open>The reference boundaries of the specification, in the order of evaluation: the
  label, the first day and the last day of each sign, as month and day.\<close>

definition reference_ranges :: "(string \<times> (int \<times> int) \<times> (int \<times> int)) list" where
  "reference_ranges =
    [(''Capricorn'', (12, 22), (1, 19)), (''Aquarius'', (1, 20), (2, 18)),
     (''Pisces'', (2, 19), (3, 20)), (''Aries'', (3, 21), (4, 19)),
     (''Taurus'', (4, 20), (5, 20)), (''Gemini'', (5, 21), (6, 20)),
     (''Cancer'', (6, 21), (7, 22)), (''Leo'', (7, 23), (8, 22)),
     (''Virgo'', (8, 23), (9, 22)), (''Libra'', (9, 23), (10, 22)),
     (''Scorpio'', (10, 23), (11, 21)), (''Sagittarius'', (11, 22), (12, 21))]"

text \<open>The entry that a submission creates, when it passes validation.\<close>

definition submitted_entry :: "env \<Rightarrow> jsval \<Rightarrow> jsval \<Rightarrow> entry option" where
  "submitted_entry e name' dateOfBirth' =
    (case validateInput e name' dateOfBirth' of
       Inl _ \<Rightarrow> None
     | Inr v \<Rightarrow> if isValid v then Some (new_entry e v) else None)"

section \<open>The validation rules of the specification\<close>

text \<open>
  The rules as the specification lists them, each with the message of its violation:
  the name is a non-empty string, its trimmed length is at least 2 and at most 50, and
  it matches the character class; the date of birth is a non-empty string, it is
  accepted by \<open>isDate\<close>, it is not after the current instant and not before the
  instant 120 years back. \<open>violations\<close> lists the messages of all the rules that a
  value breaks, each rule taken by itself, in the order of the rules.
\<close>

definition str_of :: "jsval \<Rightarrow> string" where
  "str_of v = (case v of Str s \<Rightarrow> s | _ \<Rightarrow> [])"

definition non_empty_string :: "jsval \<Rightarrow> bool" where
  "non_empty_string v = (case v of Str s \<Rightarrow> s \<noteq> [] | _ \<Rightarrow> False)"

definition name_rules :: "((jsval \<Rightarrow> bool) \<times> string) list" where
  "name_rules =
    [(non_empty_string, ''Name is required''),
     (\<lambda>n. 2 \<le> length (trim (str_of n)), ''Name must be at least 2 characters long''),
     (\<lambda>n. length (trim (str_of n)) \<le> 50, ''Name must be less than 50 characters''),
     (\<lambda>n. name_pattern (trim (str_of n)),
      ''Name can only contain letters, spaces, hyphens, and apostrophes'')]"

definition date_rules :: "env \<Rightarrow> ((jsval \<Rightarrow> bool) \<times> string) list" where
  "date_rules e =
    [(non_empty_string, ''Date of birth is required''),
     (\<lambda>d. isDate e (str_of d), ''Invalid date format''),
     (\<lambda>d. case Date_parse e (str_of d) of None \<Rightarrow> True | Some b \<Rightarrow> \<not> b > clockToday e,
      ''Date of birth cannot be in the future''),
     (\<lambda>d. case Date_parse e (str_of d) of None \<Rightarrow> True | Some b \<Rightarrow> \<not> b < hundredYearsAgo e,
      ''Date of birth cannot be more than 120 years ago'')]"

definition violations :: "(('a \<Rightarrow> bool) \<times> string) list \<Rightarrow> 'a \<Rightarrow> string list" where
  "violations rules x = map snd (filter (\<lambda>(holds, msg). \<not> holds x) rules)"

section \<open>Sample environments\<close>

text \<open>
  A server on UTC and one five hours behind UTC, at 2026-11-02T17:00:00Z, and one ten
  hours ahead of UTC, at 2026-11-02T19:00:00Z, with a \<open>validator.isDate\<close> that
  accepts the full dates \<open>YYYY-MM-DD\<close>, an engine that rejects every other string, and
  reads and writes that succeed.
\<close>

definition env_utc :: env where
  "env_utc =
    \<lparr>tzOffset = 0, isDate = (\<lambda>s. parse_iso_date s \<noteq> None), otherParse = (\<lambda>s. None),
     clockToday = 1793638800000, clockId = 1793638800001, clockStamp = 1793638800002,
     readFails = False, writeFails = False, writeTruncates = False\<rparr>"

definition env_west :: env where
  "env_west = env_utc\<lparr>tzOffset := - 300\<rparr>"

definition env_east :: env where
  "env_east = env_utc\<lparr>tzOffset := 600, clockToday := 1793646000000\<rparr>"



definition entry_ada :: entry where
  "entry_ada =
    \<lparr>entry_id = ''1793638800001'', name = ''Ada Lovelace'', dateOfBirth = ''1990-03-21'',
     zodiacSign = ''Aries'', timestamp = ''2026-11-02T17:00:00.002Z''\<rparr>"

section \<open>Properties of the classifier\<close>

lemma month_cases:
  "1 \<le> (m::int) \<Longrightarrow> m \<le> 12 \<Longrightarrow>
     m = 1 \<or> m = 2 \<or> m = 3 \<or> m = 4 \<or> m = 5 \<or> m = 6 \<or> m = 7 \<or> m = 8 \<or> m = 9 \<or> m = 10 \<or> m = 11 \<or> m = 12"
  by arith

lemma matching_month:
  "filter (in_range 1 d) zodiacSigns = [if d \<le> 19 then zodiacSigns ! 0 else zodiacSigns ! 1]"
  "filter (in_range 2 d) zodiacSigns = [if d \<le> 18 then zodiacSigns ! 1 else zodiacSigns ! 2]"
  "filter (in_range 3 d) zodiacSigns = [if d \<le> 20 then zodiacSigns ! 2 else zodiacSigns ! 3]"
  "filter (in_range 4 d) zodiacSigns = [if d \<le> 19 then zodiacSigns ! 3 else zodiacSigns ! 4]"
  "filter (in_range 5 d) zodiacSigns = [if d \<le> 20 then zodiacSigns ! 4 else zodiacSigns ! 5]"
  "filter (in_range 6 d) zodiacSigns = [if d \<le> 20 then zodiacSigns ! 5 else zodiacSigns ! 6]"
  "filter (in_range 7 d) zodiacSigns = [if d \<le> 22 then zodiacSigns ! 6 else zodiacSigns ! 7]"
  "filter (in_range 8 d) zodiacSigns = [if d \<le> 22 then zodiacSigns ! 7 else zodiacSigns ! 8]"
  "filter (in_range 9 d) zodiacSigns = [if d \<le> 22 then zodiacSigns ! 8 else zodiacSigns ! 9]"
  "filter (in_range 10 d) zodiacSigns = [if d \<le> 22 then zodiacSigns ! 9 else zodiacSigns ! 10]"
  "filter (in_range 11 d) zodiacSigns = [if d \<le> 21 then zodiacSigns ! 10 else zodiacSigns ! 11]"
  "filter (in_range 12 d) zodiacSigns = [if d \<le> 21 then zodiacSigns ! 11 else zodiacSigns ! 0]"
  by (simp_all add: zodiacSigns_def in_range_def)

lemma first_match_filter:
  "first_match m d zs = (case filter (in_range m d) zs of [] \<Rightarrow> ''Unknown'' | z # _ \<Rightarrow> sign z)"
  by (induction zs) simp_all

lemma sign_labels_table: "map sign zodiacSigns = sign_labels"
  by (simp add: zodiacSigns_def sign_labels_def)

lemma ends_meet: "map (next_day \<circ> endd) zodiacSigns = map start (rotate1 zodiacSigns)"
  by (simp add: zodiacSigns_def next_day_def days_in_def)

lemma calendar_length: "length calendar = 366"
  by (simp add: calendar_def days_in_def upto.simps)

lemma calendar_distinct: "distinct calendar"
  by (simp add: calendar_def days_in_def upto.simps)

lemma calendar_valid: "set calendar = {(m, d). valid_day m d}"
  by (auto simp: calendar_def valid_day_def image_iff)

lemma one_match:
  assumes "1 \<le> m" "m \<le> 12"
  shows "\<exists>z\<in>set zodiacSigns. filter (in_range m d) zodiacSigns = [z] \<and> zodiac_of m d = sign z"
proof -
  have "\<exists>z. filter (in_range m d) zodiacSigns = [z]"
    using month_cases[OF assms] matching_month[of d] by auto
  then obtain z where z: "filter (in_range m d) zodiacSigns = [z]" ..
  then have "z \<in> set (filter (in_range m d) zodiacSigns)" by simp
  then have "z \<in> set zodiacSigns" by simp
  moreover have "zodiac_of m d = sign z"
    by (simp add: zodiac_of_def first_match_filter z)
  ultimately show ?thesis using z by blast
qed

lemma boundary_days:
  "\<forall>z\<in>set zodiacSigns.
     (case start z of (m, d) \<Rightarrow> zodiac_of m d = sign z) \<and>
     (case endd z of (m, d) \<Rightarrow> zodiac_of m d = sign z)"
  by (simp add: zodiacSigns_def zodiac_of_def in_range_def)

text \<open>
  The table and the loop by themselves, on the month and the day that the loop is given.
  The rows are the reference boundaries of the specification. On each of the 366 days of
  the calendar (twelve months, February with 29 days) exactly one row of the table
  matches, and the loop returns the label of that row, one of the twelve labels in the
  order Capricorn, Aquarius, ..., Sagittarius. The first and the last day of each row
  give that row, the day after the last day of a row is the first day of the next row
  (Sagittarius is followed by Capricorn), and 3/20 gives Pisces, 3/21 gives Aries.
\<close>

lemma table_reference:
  "map (\<lambda>z. (sign z, start z, endd z)) zodiacSigns = reference_ranges"
  by (simp add: zodiacSigns_def reference_ranges_def)

theorem zodiac_partition:
  assumes "valid_day month day"
  shows "(\<exists>z\<in>set zodiacSigns.
            filter (in_range month day) zodiacSigns = [z] \<and> zodiac_of month day = sign z)
       \<and> zodiac_of month day \<in> set sign_labels
       \<and> map sign zodiacSigns = sign_labels \<and> distinct sign_labels \<and> length sign_labels = 12
       \<and> set calendar = {(m, d). valid_day m d} \<and> distinct calendar \<and> length calendar = 366
       \<and> (\<forall>z\<in>set zodiacSigns.
            (case start z of (m, d) \<Rightarrow> zodiac_of m d = sign z) \<and>
            (case endd z of (m, d) \<Rightarrow> zodiac_of m d = sign z))
       \<and> map (next_day \<circ> endd) zodiacSigns = map start (rotate1 zodiacSigns)
       \<and> zodiac_of 3 20 = ''Pisces'' \<and> zodiac_of 3 21 = ''Aries''"
proof -
  from assms have m: "1 \<le> month" "month \<le> 12"
    by (simp_all add: valid_day_def)
  from one_match[OF m, of day] obtain z where
    z: "z \<in> set zodiacSigns" "filter (in_range month day) zodiacSigns = [z]"
       "zodiac_of month day = sign z"
    by blast
  from z(1) have "sign z \<in> set (map sign zodiacSigns)" by simp
  then have lab: "zodiac_of month day \<in> set sign_labels"
    by (simp add: z(3) sign_labels_table)
  have d: "distinct sign_labels" "length sign_labels = 12"
    by (simp_all add: sign_labels_def)
  have p: "zodiac_of 3 20 = ''Pisces''" "zodiac_of 3 21 = ''Aries''"
    by (simp_all add: zodiac_of_def zodiacSigns_def in_range_def)
  show ?thesis
    using z lab d p sign_labels_table calendar_valid calendar_distinct calendar_length
      boundary_days ends_meet
    by blast
qed

theorem zodiac_partition_witness:
  "valid_day 2 29 \<and> zodiac_of 2 29 = ''Pisces'' \<and> zodiac_of 2 29 \<in> set sign_labels"
proof -
  have v: "valid_day 2 29"
    by (simp add: valid_day_def days_in_def)
  have "zodiac_of 2 29 = ''Pisces''"
    by (simp add: zodiac_of_def zodiacSigns_def in_range_def)
  with v zodiac_partition[OF v] show ?thesis by simp
qed

text \<open>
  C10. For every month from 1 to 12 and every day from 1 to 31, whether or not the
  month has such a day, some row of the table matches and the classifier returns one
  of the twelve labels: the final \<open>'Unknown'\<close> is not reached.
\<close>

theorem unknown_unreachable:
  assumes "1 \<le> month" "month \<le> 12" "1 \<le> day" "day \<le> 31"
  shows "(\<exists>z\<in>set zodiacSigns. in_range month day z)
       \<and> zodiac_of month day \<in> set sign_labels
       \<and> zodiac_of month day \<noteq> ''Unknown''"
proof -
  from one_match[OF assms(1,2), of day] obtain z where
    z: "z \<in> set zodiacSigns" "filter (in_range month day) zodiacSigns = [z]"
       "zodiac_of month day = sign z"
    by blast
  from z(2) have "z \<in> set (filter (in_range month day) zodiacSigns)" by simp
  then have r: "in_range month day z" by simp
  from z(1) have "sign z \<in> set (map sign zodiacSigns)" by simp
  then have lab: "zodiac_of month day \<in> set sign_labels"
    by (simp add: z(3) sign_labels_table)
  then have "zodiac_of month day \<noteq> ''Unknown''"
    by (auto simp: sign_labels_def)
  with z(1) r lab show ?thesis by blast
qed

theorem unknown_unreachable_witness:
  "(1::int) \<le> 2 \<and> (2::int) \<le> 12 \<and> (1::int) \<le> 30 \<and> (30::int) \<le> 31
   \<and> zodiac_of 2 30 = ''Pisces'' \<and> zodiac_of 2 30 \<noteq> ''Unknown''"
  using unknown_unreachable[of 2 30]
  by (simp add: zodiac_of_def zodiacSigns_def in_range_def)

section \<open>The calendar functions\<close>

text \<open>
  The two calendar functions are inverse to each other: \<open>civil_from_days\<close> gives
  back the year, month and day of every day of the calendar (\<open>civil_roundtrip\<close>),
  and \<open>days_from_civil\<close> gives back every day number (\<open>days_of_civil\<close>). The
  month of a day number is from 1 to 12 and its day from 1 to 31, so that
  \<open>getMonth()\<close> is from 0 to 11 and \<open>getDate()\<close> from 1 to 31 on every valid
  \<open>Date\<close>.
\<close>

lemma century:
  fixes r k :: int
  assumes "0 \<le> r" "r \<le> 36523" "0 \<le> k" "k \<le> 3"
    and "1460 * q \<le> 24 * k + r" "24 * k + r < 1460 * q + 1460"
    and "365 * y \<le> r - q" "r - q < 365 * y + 365"
    and "4 * u \<le> y" "y < 4 * u + 4"
  shows "0 \<le> r - 365 * y - u \<and> r - 365 * y - u \<le> 365 \<and> 0 \<le> y \<and> y \<le> 99"
  using assms by arith

lemma doy_linear:
  fixes doe :: int
  assumes d: "0 \<le> doe" "doe \<le> 146095"
    and k: "36524 * k \<le> doe" "doe < 36524 * k + 36524"
    and q: "1460 * q \<le> doe" "doe < 1460 * q + 1460"
    and y: "365 * yoe \<le> doe - q + k" "doe - q + k < 365 * yoe + 365"
    and y4: "4 * y4 \<le> yoe" "yoe < 4 * y4 + 4"
    and y100: "100 * y100 \<le> yoe" "yoe < 100 * y100 + 100"
  shows "0 \<le> doe - (365 * yoe + y4 - y100) \<and> doe - (365 * yoe + y4 - y100) \<le> 365
         \<and> 0 \<le> yoe \<and> yoe \<le> 399"
proof -
  define r where "r = doe - 36524 * k"
  define q' where "q' = q - 25 * k"
  define y' where "y' = yoe - 100 * k"
  define u where "u = y4 - 25 * k"
  have kb: "0 \<le> k" "k \<le> 3" using d k by linarith+
  have rb: "0 \<le> r" "r \<le> 36523" using k by (simp_all add: r_def)
  have q1: "1460 * q' \<le> 24 * k + r" "24 * k + r < 1460 * q' + 1460"
    using q by (simp_all add: q'_def r_def)
  have y1: "365 * y' \<le> r - q'" "r - q' < 365 * y' + 365"
    using y by (simp_all add: y'_def r_def q'_def)
  have u1: "4 * u \<le> y'" "y' < 4 * u + 4"
    using y4 by (simp_all add: u_def y'_def)
  from century[OF rb kb q1 y1 u1]
  have c: "0 \<le> r - 365 * y' - u" "r - 365 * y' - u \<le> 365" "0 \<le> y'" "y' \<le> 99"
    by simp_all
  from c(3,4) y100 have h: "y100 = k"
    by (simp add: y'_def)
  have "doe - (365 * yoe + y4 - y100) = r - 365 * y' - u"
    by (simp add: h r_def y'_def u_def)
  moreover have "0 \<le> yoe" "yoe \<le> 399"
    using c(3,4) kb by (simp_all add: y'_def)
  ultimately show ?thesis using c(1,2) by simp
qed

lemma div_bounds: "(c::int) > 0 \<Longrightarrow> c * (a div c) \<le> a \<and> a < c * (a div c) + c"
proof -
  assume c: "c > 0"
  have "a = c * (a div c) + a mod c" by simp
  moreover have "0 \<le> a mod c" "a mod c < c" using c by simp_all
  ultimately show ?thesis by linarith
qed

lemma doy_range:
  fixes doe :: int
  assumes "0 \<le> doe" "doe \<le> 146096"
  defines "yoe \<equiv> (doe - doe div 1460 + doe div 36524 - doe div 146096) div 365"
  shows "0 \<le> doe - (365 * yoe + yoe div 4 - yoe div 100)
       \<and> doe - (365 * yoe + yoe div 4 - yoe div 100) \<le> 365 \<and> 0 \<le> yoe \<and> yoe \<le> 399"
proof (cases "doe = 146096")
  case True
  then show ?thesis by (simp add: yoe_def)
next
  case False
  with assms(2) have le: "doe \<le> 146095" by simp
  with assms(1) have z: "doe div 146096 = 0" by simp
  have y: "yoe = (doe - doe div 1460 + doe div 36524) div 365"
    by (simp add: yoe_def z)
  show ?thesis
    apply (rule doy_linear[OF assms(1) le, of "doe div 36524" "doe div 1460"])
    using div_bounds[of 36524 doe] div_bounds[of 1460 doe]
          div_bounds[of 365 "doe - doe div 1460 + doe div 36524"]
          div_bounds[of 4 yoe] div_bounds[of 100 yoe]
    by (simp_all add: y)
qed

lemma month_day_range:
  fixes doy :: int
  assumes "0 \<le> doy" "doy \<le> 365"
  defines "mp \<equiv> (5 * doy + 2) div 153"
  shows "0 \<le> mp \<and> mp \<le> 11 \<and> 1 \<le> doy - (153 * mp + 2) div 5 + 1
         \<and> doy - (153 * mp + 2) div 5 + 1 \<le> 31"
  using assms(1,2) unfolding mp_def by arith

lemma div_unique: "(c::int) > 0 \<Longrightarrow> c * q \<le> a \<Longrightarrow> a < c * q + c \<Longrightarrow> a div c = q"
  by (rule int_div_pos_eq[where r = "a - c * q"]) simp_all

lemma cycle_linear:
  fixes k u v doy q :: int
  assumes "0 \<le> k" "k \<le> 3" "0 \<le> u" "u \<le> 24" "0 \<le> v" "v \<le> 3" "0 \<le> doy" "doy \<le> 365"
    and "doy = 365 \<longrightarrow> v = 3 \<and> u < 24"
    and "1460 * q \<le> 24 * k + 1461 * u + 365 * v + doy"
        "24 * k + 1461 * u + 365 * v + doy < 1460 * q + 1460"
  shows "q \<le> u + doy \<and> u + doy - q < 365 \<and> 1461 * u + 365 * v + doy \<le> 36523"
  using assms by arith

lemma year_digits:
  fixes yoe :: int
  assumes "0 \<le> yoe" "yoe \<le> 399"
  obtains k u v where "yoe = 100 * k + 4 * u + v" "0 \<le> k" "k \<le> 3" "0 \<le> u" "u \<le> 24"
    "0 \<le> v" "v \<le> 3" "yoe div 4 = 25 * k + u" "yoe div 100 = k"
proof -
  define k where "k = yoe div 100"
  define w where "w = yoe mod 100"
  define u where "u = w div 4"
  define v where "v = w mod 4"
  have w: "yoe = 100 * k + w" "0 \<le> w" "w < 100"
    by (simp_all add: k_def w_def)
  have v: "w = 4 * u + v" "0 \<le> v" "v < 4"
    by (simp_all add: u_def v_def)
  have kb: "0 \<le> k" "k \<le> 3" using w assms by linarith+
  have ub: "0 \<le> u" "u \<le> 24" using w v by linarith+
  have d4: "yoe div 4 = 25 * k + u"
    using w v by (intro div_unique) simp_all
  have d100: "yoe div 100 = k" by (simp add: k_def)
  have e: "yoe = 100 * k + 4 * u + v" using w(1) v(1) by linarith
  have v3: "v \<le> 3" using v(3) by linarith
  show thesis
    by (rule that[OF e kb ub v(2) v3 d4 d100])
qed

lemma yoe_recover:
  fixes yoe doy :: int
  assumes b: "0 \<le> yoe" "yoe \<le> 399" "0 \<le> doy" "doy \<le> 365"
    and l: "doy = 365 \<longrightarrow> (yoe + 1) mod 4 = 0 \<and> ((yoe + 1) mod 100 \<noteq> 0 \<or> yoe = 399)"
  defines "doe \<equiv> yoe * 365 + yoe div 4 - yoe div 100 + doy"
  shows "(doe - doe div 1460 + doe div 36524 - doe div 146096) div 365 = yoe
         \<and> 0 \<le> doe \<and> doe \<le> 146096"
proof (cases "yoe = 399 \<and> doy = 365")
  case True
  then show ?thesis by (simp add: doe_def)
next
  case False
  from year_digits[OF b(1,2)] obtain k u v where
    dec: "yoe = 100 * k + 4 * u + v" "yoe div 4 = 25 * k + u" "yoe div 100 = k"
    and kb: "0 \<le> k" "k \<le> 3" and ub: "0 \<le> u" "u \<le> 24" and vb: "0 \<le> v" "v \<le> 3"
    by metis
  have lv: "doy = 365 \<longrightarrow> v = 3 \<and> u < 24"
  proof
    assume d: "doy = 365"
    with l False have m4: "(yoe + 1) mod 4 = 0" and m100: "(yoe + 1) mod 100 \<noteq> 0" by auto
    have "yoe + 1 = (v + 1) + 4 * (25 * k + u)" by (simp add: dec(1))
    then have "(yoe + 1) mod 4 = (v + 1) mod 4" by (simp only: mod_mult_self2)
    with m4 have "(v + 1) mod 4 = 0" by simp
    with vb have v3: "v = 3" by presburger
    have "u \<noteq> 24"
    proof
      assume "u = 24"
      with v3 have "yoe + 1 = 0 + 100 * (k + 1)" by (simp add: dec(1))
      then have "(yoe + 1) mod 100 = 0" by (simp only: mod_mult_self2) simp
      with m100 show False by simp
    qed
    with ub v3 show "v = 3 \<and> u < 24" by simp
  qed
  have doe: "doe = 36524 * k + 1461 * u + 365 * v + doy"
    by (simp add: doe_def dec(2,3)) (simp add: dec(1))
  define q where "q = doe div 1460 - 25 * k"
  have q: "1460 * q \<le> 24 * k + 1461 * u + 365 * v + doy"
          "24 * k + 1461 * u + 365 * v + doy < 1460 * q + 1460"
    using div_bounds[of 1460 doe] by (simp_all add: q_def doe)
  from cycle_linear[OF kb ub vb b(3,4) lv q]
  have c: "q \<le> u + doy" "u + doy - q < 365" "1461 * u + 365 * v + doy \<le> 36523"
    by simp_all
  have r0: "0 \<le> 1461 * u + 365 * v + doy" using ub vb b(3) by simp
  have d1: "doe div 36524 = k"
    using c(3) r0 by (intro div_unique) (simp_all add: doe)
  have db: "0 \<le> doe" "doe \<le> 146095"
    using c(3) r0 kb by (simp_all add: doe)
  then have d2: "doe div 146096 = 0" by simp
  have "doe - doe div 1460 + doe div 36524 - doe div 146096
          = 365 * yoe + (u + doy - q)"
    by (simp add: d1 d2 q_def) (simp add: doe dec(1))
  then have "(doe - doe div 1460 + doe div 36524 - doe div 146096) div 365 = yoe"
    using c(1,2) by (intro div_unique) simp_all
  with db show ?thesis by simp
qed

lemma civil_range:
  assumes "civil_from_days z = (y, m, d)"
  shows "1 \<le> m \<and> m \<le> 12 \<and> 1 \<le> d \<and> d \<le> 31"
proof -
  define doe where "doe = (z + 719468) mod 146097"
  define yoe where "yoe = (doe - doe div 1460 + doe div 36524 - doe div 146096) div 365"
  define doy where "doy = doe - (365 * yoe + yoe div 4 - yoe div 100)"
  define mp where "mp = (5 * doy + 2) div 153"
  have "0 \<le> doe" "doe \<le> 146096"
    by (simp_all add: doe_def)
  from doy_range[OF this] have doy: "0 \<le> doy" "doy \<le> 365"
    unfolding doy_def yoe_def by blast+
  from month_day_range[OF doy]
  have r: "0 \<le> mp" "mp \<le> 11" "1 \<le> doy - (153 * mp + 2) div 5 + 1"
    "doy - (153 * mp + 2) div 5 + 1 \<le> 31"
    unfolding mp_def by blast+
  have "civil_from_days z =
          (if (if mp < 10 then mp + 3 else mp - 9) \<le> 2
           then yoe + (z + 719468) div 146097 * 400 + 1
           else yoe + (z + 719468) div 146097 * 400,
           if mp < 10 then mp + 3 else mp - 9, doy - (153 * mp + 2) div 5 + 1)"
    unfolding civil_from_days_def Let_def mp_def doy_def yoe_def doe_def by (rule refl)
  with assms have "m = (if mp < 10 then mp + 3 else mp - 9)"
    "d = doy - (153 * mp + 2) div 5 + 1"
    by simp_all
  with r show ?thesis by auto
qed

lemma getters_range:
  "0 \<le> getMonth e t \<and> getMonth e t \<le> 11 \<and> 1 \<le> getDate e t \<and> getDate e t \<le> 31"
proof -
  obtain y m d where "civil_from_days ((t + tzOffset e * 60000) div msPerDay) = (y, m, d)"
    by (metis prod_cases3)
  from civil_range[OF this] this show ?thesis
    by (simp add: getMonth_def getDate_def local_fields_def)
qed

lemma sign_of_valid_date:
  assumes "Date_parse e s = Some t"
  shows "calculateZodiacSign e s \<in> set sign_labels"
proof -
  have "1 \<le> getMonth e t + 1" "getMonth e t + 1 \<le> 12"
    using getters_range[of e t] by simp_all
  from one_match[OF this, of "getDate e t"] obtain z where
    "z \<in> set zodiacSigns" "zodiac_of (getMonth e t + 1) (getDate e t) = sign z"
    by blast
  then have "zodiac_of (getMonth e t + 1) (getDate e t) \<in> set (map sign zodiacSigns)"
    by simp
  then show ?thesis
    by (simp add: calculateZodiacSign_def assms sign_labels_table)
qed

lemma month_facts:
  assumes "1 \<le> m" "m \<le> 12" "1 \<le> d" "d \<le> days_in_month y m"
  defines "mp \<equiv> (m + 9) mod 12"
  defines "doy \<equiv> (153 * mp + 2) div 5 + d - 1"
  shows "m = (if mp < 10 then mp + 3 else mp - 9) \<and> 0 \<le> doy \<and> doy \<le> 365
       \<and> (5 * doy + 2) div 153 = mp \<and> doy - (153 * mp + 2) div 5 + 1 = d
       \<and> (doy = 365 \<longrightarrow> m = 2 \<and> d = 29)"
proof -
  have d31: "d \<le> 31" "m = 2 \<longrightarrow> d \<le> 29" "m \<in> {4, 6, 9, 11} \<longrightarrow> d \<le> 30"
    using assms(4) by (auto simp: days_in_month_def split: if_splits)
  from month_cases[OF assms(1,2)] show ?thesis
  proof (elim disjE)
    assume "m = 1" with assms(3) d31 show ?thesis unfolding doy_def mp_def by (simp; arith)
  next
    assume "m = 2" with assms(3) d31 show ?thesis unfolding doy_def mp_def by (simp; arith)
  next
    assume "m = 3" with assms(3) d31 show ?thesis unfolding doy_def mp_def by (simp; arith)
  next
    assume "m = 4" with assms(3) d31 show ?thesis unfolding doy_def mp_def by (simp; arith)
  next
    assume "m = 5" with assms(3) d31 show ?thesis unfolding doy_def mp_def by (simp; arith)
  next
    assume "m = 6" with assms(3) d31 show ?thesis unfolding doy_def mp_def by (simp; arith)
  next
    assume "m = 7" with assms(3) d31 show ?thesis unfolding doy_def mp_def by (simp; arith)
  next
    assume "m = 8" with assms(3) d31 show ?thesis unfolding doy_def mp_def by (simp; arith)
  next
    assume "m = 9" with assms(3) d31 show ?thesis unfolding doy_def mp_def by (simp; arith)
  next
    assume "m = 10" with assms(3) d31 show ?thesis unfolding doy_def mp_def by (simp; arith)
  next
    assume "m = 11" with assms(3) d31 show ?thesis unfolding doy_def mp_def by (simp; arith)
  next
    assume "m = 12" with assms(3) d31 show ?thesis unfolding doy_def mp_def by (simp; arith)
  qed
qed

lemma leap_year_of_era:
  assumes "leap_year y"
  shows "((y - 1) mod 400 + 1) mod 4 = 0
       \<and> (((y - 1) mod 400 + 1) mod 100 \<noteq> 0 \<or> (y - 1) mod 400 = 399)"
proof -
  define yoe where "yoe = (y - 1) mod 400"
  define era where "era = (y - 1) div 400"
  have y: "y = yoe + 1 + 400 * era" by (simp add: yoe_def era_def)
  have b: "0 \<le> yoe" "yoe < 400" by (simp_all add: yoe_def)
  have "y = (yoe + 1) + 4 * (100 * era)" using y by simp
  then have m4: "y mod 4 = (yoe + 1) mod 4" by (simp only: mod_mult_self2)
  have "y = (yoe + 1) + 100 * (4 * era)" using y by simp
  then have m100: "y mod 100 = (yoe + 1) mod 100" by (simp only: mod_mult_self2)
  have "y = (yoe + 1) + 400 * era" using y by simp
  then have m400: "y mod 400 = (yoe + 1) mod 400" by (simp only: mod_mult_self2)
  have "(yoe + 1) mod 400 = 0 \<longrightarrow> yoe = 399"
    using b by (cases "yoe = 399") simp_all
  with assms show ?thesis
    by (auto simp: leap_year_def m4 m100 m400 yoe_def[symmetric])
qed

lemma civil_roundtrip:
  assumes "1 \<le> m" "m \<le> 12" "1 \<le> d" "d \<le> days_in_month y m"
  shows "civil_from_days (days_from_civil y m d) = (y, m, d)"
proof -
  define y' where "y' = (if m \<le> 2 then y - 1 else y)"
  define era where "era = y' div 400"
  define yoe where "yoe = y' mod 400"
  define mp where "mp = (m + 9) mod 12"
  define doy where "doy = (153 * mp + 2) div 5 + d - 1"
  define doe where "doe = yoe * 365 + yoe div 4 - yoe div 100 + doy"
  have dfc: "days_from_civil y m d = era * 146097 + doe - 719468"
    unfolding days_from_civil_def Let_def doe_def doy_def mp_def yoe_def era_def y'_def
    by (rule refl)
  from month_facts[OF assms]
  have mf: "m = (if mp < 10 then mp + 3 else mp - 9)" "0 \<le> doy" "doy \<le> 365"
    "(5 * doy + 2) div 153 = mp" "doy - (153 * mp + 2) div 5 + 1 = d"
    "doy = 365 \<longrightarrow> m = 2 \<and> d = 29"
    unfolding mp_def doy_def by blast+
  have yb: "0 \<le> yoe" "yoe \<le> 399" by (simp_all add: yoe_def)
  have lp: "doy = 365 \<longrightarrow> (yoe + 1) mod 4 = 0 \<and> ((yoe + 1) mod 100 \<noteq> 0 \<or> yoe = 399)"
  proof
    assume "doy = 365"
    with mf(6) have md: "m = 2" "d = 29" by simp_all
    with assms(4) have "leap_year y"
      by (simp add: days_in_month_def split: if_splits)
    from leap_year_of_era[OF this] md(1) show
      "(yoe + 1) mod 4 = 0 \<and> ((yoe + 1) mod 100 \<noteq> 0 \<or> yoe = 399)"
      by (simp add: yoe_def y'_def)
  qed
  from yoe_recover[OF yb mf(2,3) lp]
  have yr: "(doe - doe div 1460 + doe div 36524 - doe div 146096) div 365 = yoe"
    and db: "0 \<le> doe" "doe \<le> 146096"
    unfolding doe_def by blast+
  have z: "days_from_civil y m d + 719468 = doe + 146097 * era"
    by (simp add: dfc)
  have e: "(days_from_civil y m d + 719468) div 146097 = era"
    using db by (simp only: z; simp)
  have o: "(days_from_civil y m d + 719468) mod 146097 = doe"
    using db by (simp only: z mod_mult_self2; simp)
  have dy: "doe - (365 * yoe + yoe div 4 - yoe div 100) = doy"
    by (simp add: doe_def)
  have "civil_from_days (days_from_civil y m d)
          = (if m \<le> 2 then yoe + era * 400 + 1 else yoe + era * 400, m, d)"
    unfolding civil_from_days_def Let_def e o yr dy mf(4) mf(5)
    using mf(1) by simp
  moreover have "y' = yoe + era * 400"
    by (simp add: yoe_def era_def)
  ultimately show ?thesis
    by (simp add: y'_def split: if_splits)
qed

lemma days_of_civil:
  assumes "civil_from_days z = (y, m, d)"
  shows "days_from_civil y m d = z"
proof -
  define era where "era = (z + 719468) div 146097"
  define doe where "doe = (z + 719468) mod 146097"
  define yoe where "yoe = (doe - doe div 1460 + doe div 36524 - doe div 146096) div 365"
  define doy where "doy = doe - (365 * yoe + yoe div 4 - yoe div 100)"
  define mp where "mp = (5 * doy + 2) div 153"
  have "0 \<le> doe" "doe \<le> 146096"
    by (simp_all add: doe_def)
  from doy_range[OF this] have doy: "0 \<le> doy" "doy \<le> 365" and yb: "0 \<le> yoe" "yoe \<le> 399"
    unfolding doy_def yoe_def by blast+
  from month_day_range[OF doy] have mb: "0 \<le> mp" "mp \<le> 11"
    unfolding mp_def by blast+
  have "civil_from_days z =
          (if (if mp < 10 then mp + 3 else mp - 9) \<le> 2
           then yoe + era * 400 + 1 else yoe + era * 400,
           if mp < 10 then mp + 3 else mp - 9, doy - (153 * mp + 2) div 5 + 1)"
    unfolding civil_from_days_def Let_def mp_def doy_def yoe_def doe_def era_def by (rule refl)
  with assms have f: "m = (if mp < 10 then mp + 3 else mp - 9)"
    "d = doy - (153 * mp + 2) div 5 + 1"
    "y = (if m \<le> 2 then yoe + era * 400 + 1 else yoe + era * 400)"
    by auto
  have y': "(if m \<le> 2 then y - 1 else y) = yoe + 400 * era"
    by (simp add: f(3))
  have e: "(yoe + 400 * era) div 400 = era" "(yoe + 400 * era) mod 400 = yoe"
    using yb by simp_all
  have m': "(m + 9) mod 12 = mp"
    using mb by (cases "mp < 10") (simp_all add: f(1))
  have "days_from_civil y m d = era * 146097 + doe - 719468"
    unfolding days_from_civil_def Let_def y' e m'
    by (simp add: f(2) doy_def)
  also have "\<dots> = z"
    by (simp add: era_def doe_def)
  finally show ?thesis .
qed

lemma calendar_samples:
  "days_from_civil 1970 1 1 = 0"
  "days_from_civil 2000 3 1 = 11017"
  "days_from_civil 1900 2 29 = days_from_civil 1900 3 1"
  "civil_from_days 0 = (1970, 1, 1)"
  "civil_from_days (- 1) = (1969, 12, 31)"
  "civil_from_days 11016 = (2000, 2, 29)"
  "toISOString 0 = ''1970-01-01T00:00:00.000Z''"
  by code_simp+

section \<open>Properties of the store\<close>

lemma slice_last_drop: "slice_last n xs = drop (length xs - n) xs"
  by (simp add: slice_last_def)



lemma slice_last_rev: "rev (slice_last n xs) = take n (rev xs)"
  by (auto simp: slice_last_def rev_drop)

lemma slice_last_append: "slice_last n (slice_last n xs @ ys) = slice_last n (xs @ ys)"
proof (cases "length xs \<le> n")
  case True
  then show ?thesis by (simp add: slice_last_def)
next
  case False
  then have "slice_last n xs = drop (length xs - n) xs" "length (drop (length xs - n) xs) = n"
    by (simp_all add: slice_last_def)
  moreover have "length xs + length ys - n = length ys + (length xs - n)"
    using False by simp
  ultimately show ?thesis
    by (simp add: slice_last_drop)
qed

lemma slice_last_twice: "m \<le> n \<Longrightarrow> slice_last m (slice_last n xs) = slice_last m xs"
  by (auto simp: slice_last_def)

lemma slice_last_longer: "n \<le> length ys \<Longrightarrow> slice_last n (xs @ ys) = slice_last n ys"
  by (simp add: slice_last_drop)

lemma push_capped_slice: "push_capped data en = slice_last 100 (data @ [en])"
  by (simp add: push_capped_def slice_last_def Let_def)

lemma post_accepted:
  assumes "submitted_entry e n d = Some en" and "\<not> writeFails e"
  shows "post_calculate e n d st =
    (\<lparr>status = 200, body = Result (name en) (dateOfBirth en) (zodiacSign en)\<rparr>,
     push_capped (readData e st) en)"
  using assms
  by (auto simp: submitted_entry_def post_calculate_def writeData_def new_entry_def Let_def
      split: sum.splits if_splits)

lemma post_200:
  assumes "post_calculate e n d st = (r, st')" and "status r = 200"
  shows "\<exists>en. submitted_entry e n d = Some en \<and> \<not> writeFails e
           \<and> st' = push_capped (readData e st) en
           \<and> body r = Result (name en) (dateOfBirth en) (zodiacSign en)"
  using assms
  by (auto simp: submitted_entry_def post_calculate_def writeData_def new_entry_def Let_def
      split: sum.splits if_splits)




lemma submitted_fields:
  assumes "submitted_entry e n d = Some en"
  shows "\<exists>s t. n = Str s \<and> d = Str t \<and>
           en = \<lparr>entry_id = toString (clockId e), name = escape (trim s), dateOfBirth = trim t,
                  zodiacSign = calculateZodiacSign e (trim t),
                  timestamp = toISOString (clockStamp e)\<rparr>"
proof -
  from assms obtain v where v: "validateInput e n d = Inr v" "isValid v" "en = new_entry e v"
    by (auto simp: submitted_entry_def split: sum.splits if_splits)
  from v(1,2) obtain s t where "n = Str s" "d = Str t"
    by (cases n; cases d)
       (auto simp: validateInput_def name_errors_def date_errors_def Let_def split: if_splits)
  with v show ?thesis
    by (auto simp: validateInput_def new_entry_def Let_def)
qed

lemma post_all_recent:
  assumes "list_all2 (\<lambda>(e, n, d) en. submitted_entry e n d = Some en
                      \<and> \<not> readFails e \<and> \<not> writeFails e) rs ens"
  shows "slice_last 10 (post_all rs st) = slice_last 10 (st @ ens)"
  using assms
proof (induction rs ens arbitrary: st rule: list_all2_induct)
  case Nil
  then show ?case by simp
next
  case (Cons r rs en ens)
  obtain e n d where r: "r = (e, n, d)" by (cases r)
  with Cons.hyps(1) have ok: "submitted_entry e n d = Some en" "\<not> readFails e" "\<not> writeFails e"
    by simp_all
  have step: "snd (post_calculate e n d st) = slice_last 100 (st @ [en])"
    by (simp add: post_accepted[OF ok(1,3)] readData_def ok(2) push_capped_slice)
  have "slice_last 10 (post_all (r # rs) st) = slice_last 10 (slice_last 100 (st @ [en]) @ ens)"
    by (simp add: r step Cons.IH)
  also have "\<dots> = slice_last 10 (slice_last 100 (slice_last 100 (st @ [en]) @ ens))"
    by (simp add: slice_last_twice)
  also have "\<dots> = slice_last 10 (slice_last 100 ((st @ [en]) @ ens))"
    by (simp only: slice_last_append)
  also have "\<dots> = slice_last 10 (st @ en # ens)"
    by (simp add: slice_last_twice)
  finally show ?case .
qed

lemma ada_entry:
  "submitted_entry env_utc (Str ''Ada Lovelace'') (Str ''1990-03-21'') = Some entry_ada"
  by code_simp

lemma utc_flags: "\<not> readFails env_utc" "\<not> writeFails env_utc" "tzOffset env_utc = 0"
  "\<not> writeTruncates env_utc"
  by (simp_all add: env_utc_def)




text \<open>
  C4. When the read succeeds, \<open>GET /api/entries\<close> answers 200 with the last ten
  entries of the document, the newest first, and with all of them when there are fewer
  than ten. After 105 submissions in a row, each accepted and each with a read and a
  write that succeed, the answer lists the entries of the last ten submissions, the
  newest first, whatever the document held before.
\<close>

theorem recent_entries:
  assumes "\<not> readFails e"
  shows "get_entries e st = \<lparr>status = 200, body = Entries (take 10 (rev st))\<rparr>
       \<and> length (take 10 (rev st)) = min 10 (length st)
       \<and> (length st < 10 \<longrightarrow> take 10 (rev st) = rev st)
       \<and> (list_all2 (\<lambda>(e, n, d) en. submitted_entry e n d = Some en
                        \<and> \<not> readFails e \<and> \<not> writeFails e) rs ens
            \<longrightarrow> length rs = 105
            \<longrightarrow> get_entries e (post_all rs st)
                  = \<lparr>status = 200, body = Entries (rev (drop 95 ens))\<rparr>)"
proof -
  have g: "get_entries e s = \<lparr>status = 200, body = Entries (rev (slice_last 10 s))\<rparr>" for s
    using assms by (simp add: get_entries_def readData_def)
  have a: "get_entries e st = \<lparr>status = 200, body = Entries (take 10 (rev st))\<rparr>"
    by (simp add: g slice_last_rev)
  have b: "length (take 10 (rev st)) = min 10 (length st)"
    by simp
  have c: "length st < 10 \<longrightarrow> take 10 (rev st) = rev st"
    by simp
  have d: "get_entries e (post_all rs st) = \<lparr>status = 200, body = Entries (rev (drop 95 ens))\<rparr>"
    if ok: "list_all2 (\<lambda>(e, n, d) en. submitted_entry e n d = Some en
                        \<and> \<not> readFails e \<and> \<not> writeFails e) rs ens"
      and len: "length rs = 105"
  proof -
    from ok len have l: "length ens = 105"
      by (simp add: list_all2_lengthD)
    have "slice_last 10 (post_all rs st) = slice_last 10 (st @ ens)"
      using ok by (rule post_all_recent)
    also have "\<dots> = slice_last 10 ens"
      using l by (simp add: slice_last_longer)
    also have "\<dots> = drop 95 ens"
      using l by (simp add: slice_last_def)
    finally show ?thesis by (simp add: g)
  qed
  from a b c d show ?thesis by blast
qed

theorem recent_entries_witness:
  "\<not> readFails env_utc
   \<and> get_entries env_utc
        (post_all (replicate 105 (env_utc, Str ''Ada Lovelace'', Str ''1990-03-21'')) [])
     = \<lparr>status = 200, body = Entries (replicate 10 entry_ada)\<rparr>"
proof -
  let ?r = "(env_utc, Str ''Ada Lovelace'', Str ''1990-03-21'')"
  have "list_all2 (\<lambda>(e, n, d) en. submitted_entry e n d = Some en
                     \<and> \<not> readFails e \<and> \<not> writeFails e)
          (replicate 105 ?r) (replicate 105 entry_ada)"
    by (simp add: list_all2_conv_all_nth ada_entry utc_flags)
  with recent_entries[OF utc_flags(1), of "[]" "replicate 105 ?r" "replicate 105 entry_ada"]
  have "get_entries env_utc (post_all (replicate 105 ?r) [])
          = \<lparr>status = 200, body = Entries (rev (drop 95 (replicate 105 entry_ada)))\<rparr>"
    by simp
  then show ?thesis by (simp add: utc_flags)
qed

text \<open>
  C5. When a submission passes validation and the write of the store fails,
  \<open>POST /api/calculate\<close> answers 500 with \<open>{error: 'Internal server error'}\<close>: no
  success body and no zodiac sign are returned, whether the read succeeded or not.
\<close>

theorem write_failure_aborts:
  assumes "validateInput e name' dateOfBirth' = Inr v" and "isValid v" and "writeFails e"
  shows "fst (post_calculate e name' dateOfBirth' st)
           = \<lparr>status = 500, body = Error ''Internal server error''\<rparr>
       \<and> (\<forall>a b c. body (fst (post_calculate e name' dateOfBirth' st)) \<noteq> Result a b c)"
  using assms by (simp add: post_calculate_def writeData_def Let_def)

theorem write_failure_aborts_witness:
  "writeFails (env_utc\<lparr>writeFails := True\<rparr>)
   \<and> submitted_entry (env_utc\<lparr>writeFails := True\<rparr>) (Str ''Ada Lovelace'') (Str ''1990-03-21'')
       \<noteq> None
   \<and> post_calculate (env_utc\<lparr>writeFails := True\<rparr>) (Str ''Ada Lovelace'') (Str ''1990-03-21'')
       [entry_ada]
     = (\<lparr>status = 500, body = Error ''Internal server error''\<rparr>, [entry_ada])"
proof -
  let ?e = "env_utc\<lparr>writeFails := True\<rparr>"
  have v: "validateInput ?e (Str ''Ada Lovelace'') (Str ''1990-03-21'')
             = Inr \<lparr>isValid = True, errors = [], sanitizedName = ''Ada Lovelace'',
                    sanitizedDate = ''1990-03-21''\<rparr>"
    by code_simp
  have s: "submitted_entry ?e (Str ''Ada Lovelace'') (Str ''1990-03-21'') \<noteq> None"
    by (simp add: submitted_entry_def v)
  have w: "writeFails ?e" by simp
  have "snd (post_calculate ?e (Str ''Ada Lovelace'') (Str ''1990-03-21'') [entry_ada])
          = [entry_ada]"
    by (simp add: post_calculate_def v writeData_def Let_def utc_flags)
  with write_failure_aborts[OF v _ w, of "[entry_ada]"] s show ?thesis
    by (simp add: prod_eq_iff)
qed

text \<open>
  C6, as the code has it. A read of the store that fails is caught inside \<open>readData\<close>
  and stands for an empty collection; it is never answered by 500.
  \<open>GET /api/entries\<close> answers 200 with \<open>success: true\<close> and no entries, and
  \<open>POST /api/calculate\<close> answers 500 only when the validator throws or the write
  fails.
\<close>

theorem read_failure_is_empty:
  assumes "readFails e"
  shows "get_entries e st = \<lparr>status = 200, body = Entries []\<rparr>
       \<and> (status (fst (post_calculate e name' dateOfBirth' st)) = 500
            \<longrightarrow> validateInput e name' dateOfBirth' = Inl TypeError \<or> writeFails e)"
proof
  show "get_entries e st = \<lparr>status = 200, body = Entries []\<rparr>"
    using assms by (simp add: get_entries_def readData_def slice_last_def)
  show "status (fst (post_calculate e name' dateOfBirth' st)) = 500
          \<longrightarrow> validateInput e name' dateOfBirth' = Inl TypeError \<or> writeFails e"
    by (cases "validateInput e name' dateOfBirth'")
       (auto simp: post_calculate_def writeData_def validateInput_def Let_def
             split: if_splits)
qed

theorem read_failure_is_empty_witness:
  "readFails (env_utc\<lparr>readFails := True\<rparr>)
   \<and> get_entries (env_utc\<lparr>readFails := True\<rparr>) (replicate 3 entry_ada)
       = \<lparr>status = 200, body = Entries []\<rparr>"
  using read_failure_is_empty[of "env_utc\<lparr>readFails := True\<rparr>" "replicate 3 entry_ada"]
  by simp

theorem read_failure_counterexample:
  "readFails (env_utc\<lparr>readFails := True\<rparr>)
   \<and> get_entries (env_utc\<lparr>readFails := True\<rparr>) [entry_ada]
       = \<lparr>status = 200, body = Entries []\<rparr>
   \<and> status (get_entries (env_utc\<lparr>readFails := True\<rparr>) [entry_ada]) \<noteq> 500"
  by (simp add: get_entries_def readData_def slice_last_def)

text \<open>
  C8. When \<open>POST /api/calculate\<close> answers 200 and a later \<open>GET /api/entries\<close> reads
  the document it has written, the first entry listed is the entry the submission
  created: its id is the clock in decimal, its name the trimmed and escaped name of the
  request, its date of birth the trimmed date of the request, its sign the one computed
  from that date, its time stamp the clock in ISO form, and name, date and sign are those
  of the response to the submission. The entries listed after it are the newest of
  the document as it was before.
\<close>

theorem round_trip:
  assumes "post_calculate e name' dateOfBirth' st = (r, st')" and "status r = 200"
      and "\<not> readFails e'"
  shows "\<exists>en older s t.
           submitted_entry e name' dateOfBirth' = Some en
         \<and> last st' = en
         \<and> get_entries e' st' = \<lparr>status = 200, body = Entries (en # older)\<rparr>
         \<and> name' = Str s \<and> dateOfBirth' = Str t
         \<and> en = \<lparr>entry_id = toString (clockId e), name = escape (trim s),
                  dateOfBirth = trim t, zodiacSign = calculateZodiacSign e (trim t),
                  timestamp = toISOString (clockStamp e)\<rparr>
         \<and> body r = Result (name en) (dateOfBirth en) (zodiacSign en)
         \<and> (\<not> readFails e \<longrightarrow> older = take 9 (rev st))"
proof -
  from post_200[OF assms(1,2)] obtain en where
    en: "submitted_entry e name' dateOfBirth' = Some en"
        "st' = push_capped (readData e st) en"
        "body r = Result (name en) (dateOfBirth en) (zodiacSign en)"
    by blast
  from submitted_fields[OF en(1)] obtain s t where
    f: "name' = Str s" "dateOfBirth' = Str t"
       "en = \<lparr>entry_id = toString (clockId e), name = escape (trim s),
               dateOfBirth = trim t, zodiacSign = calculateZodiacSign e (trim t),
               timestamp = toISOString (clockStamp e)\<rparr>"
    by blast
  let ?d = "readData e st"
  have st': "st' = slice_last 100 (?d @ [en])"
    by (simp add: en(2) push_capped_slice)
  have "rev (slice_last 10 st') = rev (slice_last 10 (?d @ [en]))"
    by (simp add: st' slice_last_twice)
  also have "\<dots> = en # take 9 (rev ?d)"
    by (simp add: slice_last_rev)
  finally have g: "get_entries e' st' = \<lparr>status = 200, body = Entries (en # take 9 (rev ?d))\<rparr>"
    using assms(3) by (simp add: get_entries_def readData_def)
  have "rev st' = take 100 (rev (?d @ [en]))"
    by (simp only: st' slice_last_rev)
  then have "rev st' = en # take 99 (rev ?d)" by simp
  then have "st' = rev (take 99 (rev ?d)) @ [en]"
    by (metis rev_rev_ident rev.simps(2))
  then have l: "last st' = en" by simp
  have o: "\<not> readFails e \<longrightarrow> take 9 (rev ?d) = take 9 (rev st)"
    by (simp add: readData_def)
  from en(1) l g f en(3) o show ?thesis by blast
qed

theorem round_trip_witness:
  "post_calculate env_utc (Str '' Ada Lovelace'') (Str ''1990-03-21'') []
     = (\<lparr>status = 200, body = Result ''Ada Lovelace'' ''1990-03-21'' ''Aries''\<rparr>, [entry_ada])
   \<and> \<not> readFails env_utc
   \<and> get_entries env_utc [entry_ada] = \<lparr>status = 200, body = Entries [entry_ada]\<rparr>"
proof -
  have p: "post_calculate env_utc (Str '' Ada Lovelace'') (Str ''1990-03-21'') []
     = (\<lparr>status = 200, body = Result ''Ada Lovelace'' ''1990-03-21'' ''Aries''\<rparr>, [entry_ada])"
    by code_simp
  have s: "submitted_entry env_utc (Str '' Ada Lovelace'') (Str ''1990-03-21'') = Some entry_ada"
    by code_simp
  from round_trip[OF p _ utc_flags(1)] s
  have "\<exists>older. get_entries env_utc [entry_ada]
                  = \<lparr>status = 200, body = Entries (entry_ada # older)\<rparr>
                \<and> older = take 9 (rev [])"
    using utc_flags(1) by auto
  then show ?thesis using p utc_flags(1) by simp
qed

section \<open>Properties of the validator\<close>

lemma name_errors_first: "name_errors n = take 1 (violations name_rules n)"
  by (cases n)
     (simp_all add: name_errors_def violations_def name_rules_def non_empty_string_def
        str_of_def trim_def name_pattern_def)

lemma date_errors_first:
  "d \<noteq> Truthy \<Longrightarrow> date_errors e d = take 1 (violations (date_rules e) d)"
  by (cases d)
     (simp_all add: date_errors_def violations_def date_rules_def non_empty_string_def
        str_of_def split: option.splits)

text \<open>
  C2, as the code has it. When the validator returns, its list of errors holds the
  message of the first rule that the name breaks, if it breaks one, followed by the
  message of the first rule that the date of birth breaks, if it breaks one: the two
  groups are checked independently of each other, and within a group the rules after
  the first broken one are not checked. The input is valid when no rule is broken.
\<close>

theorem first_violation_per_field:
  assumes "validateInput e n d = Inr v"
  shows "errors v = take 1 (violations name_rules n) @ take 1 (violations (date_rules e) d)
       \<and> (isValid v \<longleftrightarrow> violations name_rules n = [] \<and> violations (date_rules e) d = [])"
proof -
  from assms have t: "d \<noteq> Truthy"
    by (auto simp: validateInput_def Let_def split: if_splits)
  from assms have e: "errors v = name_errors n @ date_errors e d"
    and i: "isValid v \<longleftrightarrow> name_errors n @ date_errors e d = []"
    by (auto simp: validateInput_def Let_def split: if_splits)
  have "take 1 xs = [] \<longleftrightarrow> xs = []" for xs :: "string list"
    by (cases xs) simp_all
  with e i show ?thesis
    by (simp add: name_errors_first date_errors_first[OF t])
qed

theorem first_violation_per_field_witness:
  "validateInput env_utc (Str ''1'') (Str ''1990-03-21'')
     = Inr \<lparr>isValid = False, errors = [''Name must be at least 2 characters long''],
            sanitizedName = ''1'', sanitizedDate = ''1990-03-21''\<rparr>
   \<and> take 1 (violations name_rules (Str ''1'')) = [''Name must be at least 2 characters long'']
   \<and> take 1 (violations (date_rules env_utc) (Str ''1990-03-21'')) = []"
proof -
  have v: "validateInput env_utc (Str ''1'') (Str ''1990-03-21'')
     = Inr \<lparr>isValid = False, errors = [''Name must be at least 2 characters long''],
            sanitizedName = ''1'', sanitizedDate = ''1990-03-21''\<rparr>"
    by code_simp
  have n: "take 1 (violations name_rules (Str ''1''))
             = [''Name must be at least 2 characters long'']"
    by code_simp
  from first_violation_per_field[OF v] n v show ?thesis by simp
qed

theorem all_violations_counterexample:
  "validateInput env_utc (Str ''1'') (Str ''1990-03-21'')
     = Inr \<lparr>isValid = False, errors = [''Name must be at least 2 characters long''],
            sanitizedName = ''1'', sanitizedDate = ''1990-03-21''\<rparr>
   \<and> violations name_rules (Str ''1'')
       = [''Name must be at least 2 characters long'',
          ''Name can only contain letters, spaces, hyphens, and apostrophes'']
   \<and> violations (date_rules env_utc) (Str ''1990-03-21'') = []"
  by code_simp

section \<open>Properties that depend on the time zone\<close>

lemma day_after_instant: "t div 86400000 < D \<longleftrightarrow> t < D * (86400000::int)"
  by arith

lemma iso_not_empty: "parse_iso_date s = Some x \<Longrightarrow> s \<noteq> []"
  by (auto simp: parse_iso_date_def split: if_splits)

lemma iso_valid:
  "parse_iso_date s = Some (y, m, d) \<Longrightarrow> 1 \<le> m \<and> m \<le> 12 \<and> 1 \<le> d \<and> d \<le> days_in_month y m"
  by (auto simp: parse_iso_date_def Let_def split: if_splits)

lemma iso_fields_east:
  assumes "0 \<le> tzOffset e" and "tzOffset e < 1440" and "parse_iso_date s = Some (y, m, d)"
  shows "local_fields e (days_from_civil y m d * msPerDay) = (y, m, d)"
proof -
  have "(days_from_civil y m d * 86400000 + tzOffset e * 60000) div 86400000
          = days_from_civil y m d"
    using assms(1,2) by (intro int_div_pos_eq[where r = "tzOffset e * 60000"]) simp_all
  moreover have "civil_from_days (days_from_civil y m d) = (y, m, d)"
    using iso_valid[OF assms(3)] by (intro civil_roundtrip) simp_all
  ultimately show ?thesis
    by (simp add: local_fields_def msPerDay_def)
qed

lemma iso_fields_west:
  assumes "- 1440 \<le> tzOffset e" and "tzOffset e < 0" and "parse_iso_date s = Some (y, m, d)"
    and "2 \<le> d"
  shows "local_fields e (days_from_civil y m d * msPerDay) = (y, m, d - 1)"
proof -
  have "(days_from_civil y m d * 86400000 + tzOffset e * 60000) div 86400000
          = days_from_civil y m d - 1"
    using assms(1,2)
    by (intro int_div_pos_eq[where r = "86400000 + tzOffset e * 60000"]) simp_all
  moreover have "days_from_civil y m d - 1 = days_from_civil y m (d - 1)"
    by (simp add: days_from_civil_def Let_def)
  moreover have "civil_from_days (days_from_civil y m (d - 1)) = (y, m, d - 1)"
    using iso_valid[OF assms(3)] assms(4) by (intro civil_roundtrip) simp_all
  ultimately show ?thesis
    by (simp add: local_fields_def msPerDay_def)
qed

text \<open>
  At an offset from 0 to 24 hours ahead of UTC, a date string \<open>YYYY-MM-DD\<close> is
  classified by its own month and day. At an offset behind UTC it is classified by the
  day before, so that the first day of every row of the table gets the label of the
  row before.
\<close>

lemma classifier_east:
  assumes "0 \<le> tzOffset e" and "tzOffset e < 1440" and "parse_iso_date s = Some (y, m, d)"
  shows "calculateZodiacSign e s = zodiac_of m d"
  using iso_fields_east[OF assms]
  by (simp add: calculateZodiacSign_def Date_parse_def assms(3) getMonth_def getDate_def)

lemma classifier_west:
  assumes "- 1440 \<le> tzOffset e" and "tzOffset e < 0" and "parse_iso_date s = Some (y, m, d)"
    and "2 \<le> d"
  shows "calculateZodiacSign e s = zodiac_of m (d - 1)"
  using iso_fields_west[OF assms]
  by (simp add: calculateZodiacSign_def Date_parse_def assms(3) getMonth_def getDate_def)

lemma day_before_start:
  "\<forall>z\<in>set zodiacSigns. case start z of (m, d) \<Rightarrow> 2 \<le> d \<and> zodiac_of m (d - 1) \<noteq> sign z"
  by (simp add: zodiacSigns_def zodiac_of_def in_range_def)

lemma first_day_west:
  assumes "- 1440 \<le> tzOffset e" and "tzOffset e < 0" and "parse_iso_date s = Some (y, m, d)"
    and "z \<in> set zodiacSigns" and "start z = (m, d)"
  shows "calculateZodiacSign e s \<noteq> sign z"
proof -
  from day_before_start assms(4,5) have "2 \<le> d" "zodiac_of m (d - 1) \<noteq> sign z"
    by auto
  with classifier_west[OF assms(1-3)] show ?thesis by simp
qed

text \<open>
  On a server on UTC the window of \<open>validateInput\<close> is the one of the day numbers: a
  date string \<open>YYYY-MM-DD\<close> is in the future when its day comes after the current
  day, and too old when its day comes before the day of the current month and day of
  the month 120 years back (a year from 120 to 219 apart, which the \<open>Date\<close>
  constructor would move by 1900 years).
\<close>

lemma date_window_utc:
  assumes tz: "tzOffset e = 0" and ok: "isDate e s"
    and p: "parse_iso_date s = Some (y, m, d)"
    and today: "civil_from_days (clockToday e div msPerDay) = (ty, tm, td)"
    and rng: "ty < 120 \<or> 219 < ty"
  shows "date_errors e (Str s) =
     (if clockToday e div msPerDay < days_from_civil y m d
        then [''Date of birth cannot be in the future'']
      else if days_from_civil y m d < days_from_civil (ty - 120) tm td
        then [''Date of birth cannot be more than 120 years ago'']
      else [])"
proof -
  have ne: "s \<noteq> []" using p by (rule iso_not_empty)
  have b: "Date_parse e s = Some (days_from_civil y m d * msPerDay)"
    by (simp add: Date_parse_def p)
  from civil_range[OF today] have mi: "(tm - 1) div 12 = 0" "(tm - 1) mod 12 + 1 = tm"
    by simp_all
  have h: "hundredYearsAgo e = days_from_civil (ty - 120) tm td * msPerDay"
    using rng
    by (auto simp: hundredYearsAgo_def Date_of_fields_def getFullYear_def getMonth_def
        getDate_def local_fields_def tz today mi Let_def)
  have f: "clockToday e < days_from_civil y m d * msPerDay
            \<longleftrightarrow> clockToday e div msPerDay < days_from_civil y m d"
    by (simp add: msPerDay_def day_after_instant)
  have o: "days_from_civil y m d * msPerDay < days_from_civil (ty - 120) tm td * msPerDay
            \<longleftrightarrow> days_from_civil y m d < days_from_civil (ty - 120) tm td"
    by (simp add: msPerDay_def)
  show ?thesis
    by (simp add: date_errors_def ne ok b h f o)
qed

text \<open>
  On a server behind UTC, the date of birth whose year is 120 less than the current
  local year, with the current local month and day, is rejected as more than 120 years
  ago, whatever the time of the day.
\<close>

lemma window_edge_west:
  assumes tz: "tzOffset e < 0" and ok: "isDate e s"
    and today: "local_fields e (clockToday e) = (ty, tm, td)"
    and p: "parse_iso_date s = Some (ty - 120, tm, td)"
    and rng: "ty < 120 \<or> 219 < ty"
    and past: "days_from_civil (ty - 120) tm td * msPerDay \<le> clockToday e"
  shows "date_errors e (Str s) = [''Date of birth cannot be more than 120 years ago'']"
proof -
  have ne: "s \<noteq> []" using p by (rule iso_not_empty)
  have b: "Date_parse e s = Some (days_from_civil (ty - 120) tm td * msPerDay)"
    by (simp add: Date_parse_def p)
  from iso_valid[OF p] have mi: "(tm - 1) div 12 = 0" "(tm - 1) mod 12 + 1 = tm"
    by simp_all
  have h: "hundredYearsAgo e
             = days_from_civil (ty - 120) tm td * msPerDay - tzOffset e * 60000"
    using rng
    by (auto simp: hundredYearsAgo_def Date_of_fields_def getFullYear_def getMonth_def
        getDate_def today mi Let_def)
  with tz have "days_from_civil (ty - 120) tm td * msPerDay < hundredYearsAgo e"
    by simp
  with past show ?thesis
    by (simp add: date_errors_def ne ok b)
qed

text \<open>
  At an offset from 0 to 24 hours ahead of UTC the whole function does on a date string
  \<open>YYYY-MM-DD\<close> what the table does on its month and day: one row matches and its
  label is returned.
\<close>

lemma classifier_partition_east:
  assumes "0 \<le> tzOffset e" and "tzOffset e < 1440" and "parse_iso_date s = Some (y, m, d)"
  shows "\<exists>z\<in>set zodiacSigns.
           filter (in_range m d) zodiacSigns = [z] \<and> calculateZodiacSign e s = sign z"
proof -
  from iso_valid[OF assms(3)] have "1 \<le> m" "m \<le> 12" by simp_all
  from one_match[OF this, of d] classifier_east[OF assms] show ?thesis by simp
qed

text \<open>
  C1, where the code departs from it. On a server five hours behind UTC
  \<open>calculateZodiacSign\<close> gives to the first day of each of the twelve signs, written
  as a date of 2024, the label of the sign before it: 3/21 is Pisces, not Aries, and no
  boundary between two signs is where the table has it. The table itself has the
  reference boundaries of the specification, and the loop, given the month and the day
  of these dates, returns the twelve labels in their order.
\<close>

theorem boundaries_behind_utc:
  "map (calculateZodiacSign env_west)
     [''2024-12-22'', ''2024-01-20'', ''2024-02-19'', ''2024-03-21'', ''2024-04-20'',
      ''2024-05-21'', ''2024-06-21'', ''2024-07-23'', ''2024-08-23'', ''2024-09-23'',
      ''2024-10-23'', ''2024-11-22'']
     = [''Sagittarius'', ''Capricorn'', ''Aquarius'', ''Pisces'', ''Aries'', ''Taurus'',
        ''Gemini'', ''Cancer'', ''Leo'', ''Virgo'', ''Libra'', ''Scorpio'']
   \<and> map (\<lambda>(l, (m, d), _). zodiac_of m d) reference_ranges
     = [''Capricorn'', ''Aquarius'', ''Pisces'', ''Aries'', ''Taurus'', ''Gemini'',
        ''Cancer'', ''Leo'', ''Virgo'', ''Libra'', ''Scorpio'', ''Sagittarius'']
   \<and> map (\<lambda>z. (sign z, start z, endd z)) zodiacSigns = reference_ranges
   \<and> calculateZodiacSign env_west ''2024-03-20'' = ''Pisces''
   \<and> calculateZodiacSign env_west ''2024-03-21'' = ''Pisces''
   \<and> calculateZodiacSign env_west ''2024-03-22'' = ''Aries''"
  by code_simp

lemma ada_example_utc:
  "post_calculate env_utc (Str ''Ada Lovelace'') (Str ''1990-03-21'') []
     = (\<lparr>status = 200, body = Result ''Ada Lovelace'' ''1990-03-21'' ''Aries''\<rparr>, [entry_ada])"
  by code_simp

text \<open>
  C7, where the code departs from it. On a server five hours behind UTC, at noon of
  2026-11-02 local time, the date of birth 1906-11-02 (the day 120 years before the
  current day, not before it) is rejected as more than 120 years ago: the string is read
  as midnight UTC, the bound is midnight local time of 1906-11-02, five hours later. On a
  server ten hours ahead of UTC, at 05:00 of 2026-11-03 local time, the date of birth
  2026-11-03 (the current day, not after it) is rejected as being in the future.
\<close>

theorem date_window_off_utc:
  "local_fields env_west (clockToday env_west) = (2026, 11, 2)
   \<and> isDate env_west ''1906-11-02''
   \<and> date_errors env_west (Str ''1906-11-02'')
       = [''Date of birth cannot be more than 120 years ago'']
   \<and> local_fields env_east (clockToday env_east) = (2026, 11, 3)
   \<and> isDate env_east ''2026-11-03''
   \<and> date_errors env_east (Str ''2026-11-03'') = [''Date of birth cannot be in the future'']"
  by code_simp

text \<open>
  C9, where the code departs from it. On a server five hours behind UTC the submission
  \<open>{name: "Ada Lovelace", dateOfBirth: "1990-03-21"}\<close> passes validation, the
  classifier sees month 3 and day 20, and the result carries the sign Pisces.
\<close>

theorem ada_example_west:
  "Date_parse env_west ''1990-03-21'' = Some 637977600000
   \<and> getMonth env_west 637977600000 + 1 = 3
   \<and> getDate env_west 637977600000 = 20
   \<and> post_calculate env_west (Str ''Ada Lovelace'') (Str ''1990-03-21'') []
       = (\<lparr>status = 200, body = Result ''Ada Lovelace'' ''1990-03-21'' ''Pisces''\<rparr>,
          [entry_ada\<lparr>zodiacSign := ''Pisces''\<rparr>])"
  by code_simp

end
